theory Spec2Isabelle
  imports Main
begin

section \<open>Values and objects\<close>

text \<open>
  The parameter objects of the server have the declared type
  \<^verbatim>\<open>Record<string, string | boolean>\<close>; the handlers fill them from the untyped tool
  arguments, and \<^verbatim>\<open>buildBearURL\<close> tests each value against \<^verbatim>\<open>undefined\<close> and
  \<^verbatim>\<open>null\<close>. A value is therefore one of these four. Strings are byte strings (the
  UTF-8 form of the JavaScript string).
\<close>

datatype jsvalue = Undefined | Null | Boolean bool | Str string

text \<open>JavaScript's truthiness, as tested by \<^verbatim>\<open>if (args.x)\<close>.\<close>

fun truthy :: "jsvalue \<Rightarrow> bool" where
  "truthy Undefined = False"
| "truthy Null = False"
| "truthy (Boolean b) = b"
| "truthy (Str s) = (s \<noteq> [])"

text \<open>\<^verbatim>\<open>String(value)\<close>.\<close>

fun String :: "jsvalue \<Rightarrow> string" where
  "String Undefined = ''undefined''"
| "String Null = ''null''"
| "String (Boolean b) = (if b then ''true'' else ''false'')"
| "String (Str s) = s"

text \<open>
  An object is the list of its own properties in the order \<^verbatim>\<open>Object.entries\<close>
  enumerates them, which for the property names used here (none is an array index) is
  the order of first assignment. Assigning to a property that exists keeps its place.
\<close>

type_synonym 'v obj = "(string \<times> 'v) list"

fun obj_set :: "'v obj \<Rightarrow> string \<Rightarrow> 'v \<Rightarrow> 'v obj" where
  "obj_set [] k v = [(k, v)]"
| "obj_set ((k', v') # ps) k v =
     (if k' = k then (k, v) # ps else (k', v') # obj_set ps k v)"

section \<open>The URL builder\<close>

text \<open>
  \<^verbatim>\<open>encodeURIComponent\<close> of the runtime, on bytes: the unreserved characters stand for
  themselves, every other byte becomes \<^verbatim>\<open>%XX\<close> with upper-case hexadecimal digits
  (\<open>hex_digit\<close> is only applied to the two halves of a byte, both below 16).
\<close>

definition uriUnescaped :: "char list" where
  "uriUnescaped =
     ''ABCDEFGHIJKLMNOPQRSTUVWXYZabcdefghijklmnopqrstuvwxyz0123456789-_.!~*()'' @ [CHR 0x27]"

definition hex_digit :: "nat \<Rightarrow> char" where
  "hex_digit n = ''0123456789ABCDEF'' ! n"

definition encode_byte :: "char \<Rightarrow> string" where
  "encode_byte c =
     (if c \<in> set uriUnescaped then [c]
      else [CHR ''%'', hex_digit (of_char c div 16), hex_digit (of_char c mod 16)])"

definition encodeURIComponent :: "string \<Rightarrow> string" where
  "encodeURIComponent s = concat (map encode_byte s)"

text \<open>\<^verbatim>\<open>parts.join(sep)\<close>.\<close>

fun join :: "string \<Rightarrow> string list \<Rightarrow> string" where
  "join sep [] = []"
| "join sep [p] = p"
| "join sep (p # q # ps) = p @ sep @ join sep (q # ps)"

text \<open>
  The loop of \<^verbatim>\<open>buildBearURL\<close> over \<^verbatim>\<open>Object.entries(params)\<close>: one part
  \<^verbatim>\<open>key=value\<close> is pushed for each entry whose value is neither undefined nor null.
\<close>

fun queryParts :: "jsvalue obj \<Rightarrow> string list" where
  "queryParts [] = []"
| "queryParts ((key, val) # rest) =
     (if val \<noteq> Undefined \<and> val \<noteq> Null
      then (encodeURIComponent key @ ''='' @ encodeURIComponent (String val)) # queryParts rest
      else queryParts rest)"

definition queryString :: "jsvalue obj \<Rightarrow> string" where
  "queryString params = join ''&'' (queryParts params)"

definition baseURL :: "string \<Rightarrow> string" where
  "baseURL action = ''bear://x-callback-url/'' @ action"

definition buildBearURL :: "string \<Rightarrow> jsvalue obj \<Rightarrow> string" where
  "buildBearURL action params =
     (if queryString params \<noteq> [] then baseURL action @ ''?'' @ queryString params
      else baseURL action)"

text \<open>
  What the builder is expected to put into the query: the entries with a defined,
  non-null value, each value as the string it is converted to.
\<close>

definition defined_entries :: "jsvalue obj \<Rightarrow> (string \<times> string) list" where
  "defined_entries params =
     map (\<lambda>(k, v). (k, String v)) (filter (\<lambda>(k, v). v \<noteq> Undefined \<and> v \<noteq> Null) params)"

text \<open>The characters an encoded component can consist of.\<close>

definition safe_chars :: "char list" where
  "safe_chars = uriUnescaped @ ''%0123456789ABCDEF''"

section \<open>The query of the callback request\<close>

text \<open>\<^verbatim>\<open>s.split(c)\<close> for a one-character separator.\<close>

fun split_on :: "char \<Rightarrow> string \<Rightarrow> string list" where
  "split_on c [] = [[]]"
| "split_on c (x # xs) =
     (if x = c then [] # split_on c xs
      else (case split_on c xs of [] \<Rightarrow> [[x]] | p # ps \<Rightarrow> (x # p) # ps))"

definition hex_value :: "char \<Rightarrow> nat option" where
  "hex_value = map_of
     [(CHR ''0'', 0), (CHR ''1'', 1), (CHR ''2'', 2), (CHR ''3'', 3), (CHR ''4'', 4),
      (CHR ''5'', 5), (CHR ''6'', 6), (CHR ''7'', 7), (CHR ''8'', 8), (CHR ''9'', 9),
      (CHR ''A'', 10), (CHR ''B'', 11), (CHR ''C'', 12), (CHR ''D'', 13), (CHR ''E'', 14),
      (CHR ''F'', 15), (CHR ''a'', 10), (CHR ''b'', 11), (CHR ''c'', 12), (CHR ''d'', 13),
      (CHR ''e'', 14), (CHR ''f'', 15)]"

text \<open>
  Percent-decoding as the URL standard defines it: a \<^verbatim>\<open>%\<close> followed by two
  hexadecimal digits is one byte, any other \<^verbatim>\<open>%\<close> stands for itself.
\<close>

fun percent_decode :: "string \<Rightarrow> string" where
  "percent_decode [] = []"
| "percent_decode (c # cs) =
     (if c = CHR ''%'' then
        (case cs of
           h # l # rest \<Rightarrow>
             (case (hex_value h, hex_value l) of
                (Some a, Some b) \<Rightarrow> char_of (16 * a + b) # percent_decode rest
              | _ \<Rightarrow> c # percent_decode cs)
         | _ \<Rightarrow> c # percent_decode cs)
      else c # percent_decode cs)"

definition plus_to_space :: "string \<Rightarrow> string" where
  "plus_to_space = map (\<lambda>c. if c = CHR ''+'' then CHR '' '' else c)"

text \<open>
  The \<^verbatim>\<open>application/x-www-form-urlencoded\<close> parser behind \<^verbatim>\<open>url.searchParams\<close>:
  the query is split at \<^verbatim>\<open>&\<close>, empty pieces are skipped, each piece is split at its
  first \<^verbatim>\<open>=\<close>, and name and value are decoded. (The decoded bytes are kept as they are:
  the replacement of ill-formed UTF-8 by U+FFFD is not part of this model.)
\<close>

definition query_pieces :: "string \<Rightarrow> string list" where
  "query_pieces q = filter (\<lambda>piece. piece \<noteq> []) (split_on CHR ''&'' q)"

definition piece_name :: "string \<Rightarrow> string" where
  "piece_name piece = takeWhile (\<lambda>c. c \<noteq> CHR ''='') piece"

definition piece_value :: "string \<Rightarrow> string" where
  "piece_value piece = drop 1 (dropWhile (\<lambda>c. c \<noteq> CHR ''='') piece)"

definition parse_pair :: "string \<Rightarrow> string \<times> string" where
  "parse_pair piece =
     (percent_decode (plus_to_space (piece_name piece)),
      percent_decode (plus_to_space (piece_value piece)))"

definition parse_urlencoded :: "string \<Rightarrow> (string \<times> string) list" where
  "parse_urlencoded q = map parse_pair (query_pieces q)"

text \<open>
  \<^verbatim>\<open>new URL(req.url, 'http://localhost').searchParams\<close>: the query of a request target
  is what follows its first \<^verbatim>\<open>?\<close>, up to a fragment.
\<close>

definition url_query :: "string \<Rightarrow> string" where
  "url_query u = drop 1 (dropWhile (\<lambda>c. c \<noteq> CHR ''?'') (takeWhile (\<lambda>c. c \<noteq> CHR ''#'') u))"

definition searchParams :: "string \<Rightarrow> (string \<times> string) list" where
  "searchParams req_url = parse_urlencoded (url_query req_url)"

section \<open>JSON values and \<^verbatim>\<open>JSON.parse\<close>\<close>

text \<open>
  The values a callback result holds. A number keeps the text it was written with: the
  rounding to a double is not part of this model.
\<close>

datatype json =
    JNull
  | JBool bool
  | JNumber string
  | JString string
  | JArray "json list"
  | JObject "(string \<times> json) list"

definition is_ws :: "char \<Rightarrow> bool" where
  "is_ws c = (c \<in> set [CHR '' '', CHR 0x09, CHR 0x0A, CHR 0x0D])"

definition skip_ws :: "string \<Rightarrow> string" where
  "skip_ws = dropWhile is_ws"

definition is_digit :: "char \<Rightarrow> bool" where
  "is_digit c = (c \<in> set ''0123456789'')"

text \<open>
  The number grammar: an optional minus, an integer part without a leading zero, an
  optional fraction, an optional exponent. Each scanner returns the text it read and the
  rest of the input.
\<close>

definition scan_int :: "string \<Rightarrow> (string \<times> string) option" where
  "scan_int s =
     (let ds = takeWhile is_digit s in
      if ds = [] \<or> (1 < length ds \<and> hd ds = CHR ''0'') then None
      else Some (ds, dropWhile is_digit s))"

definition scan_frac :: "string \<Rightarrow> (string \<times> string) option" where
  "scan_frac s =
     (case s of
        [] \<Rightarrow> Some ([], [])
      | c # r \<Rightarrow>
          if c = CHR ''.'' then
            (if takeWhile is_digit r = [] then None
             else Some (c # takeWhile is_digit r, dropWhile is_digit r))
          else Some ([], s))"

definition scan_sign :: "string \<Rightarrow> string \<times> string" where
  "scan_sign s =
     (case s of
        [] \<Rightarrow> ([], [])
      | c # r \<Rightarrow> if c = CHR ''+'' \<or> c = CHR ''-'' then ([c], r) else ([], s))"

definition scan_exp :: "string \<Rightarrow> (string \<times> string) option" where
  "scan_exp s =
     (case s of
        [] \<Rightarrow> Some ([], [])
      | c # r \<Rightarrow>
          if c = CHR ''e'' \<or> c = CHR ''E'' then
            (let (sg, r') = scan_sign r in
             if takeWhile is_digit r' = [] then None
             else Some (c # sg @ takeWhile is_digit r', dropWhile is_digit r'))
          else Some ([], s))"

definition parse_number :: "string \<Rightarrow> (string \<times> string) option" where
  "parse_number s =
     (let (minus, s0) = (case s of [] \<Rightarrow> ([], [])
                         | c # r \<Rightarrow> if c = CHR ''-'' then ([c], r) else ([], s)) in
      case scan_int s0 of
        None \<Rightarrow> None
      | Some (ip, s1) \<Rightarrow>
          (case scan_frac s1 of
             None \<Rightarrow> None
           | Some (fp, s2) \<Rightarrow>
               (case scan_exp s2 of
                  None \<Rightarrow> None
                | Some (ep, s3) \<Rightarrow> Some (minus @ ip @ fp @ ep, s3))))"

text \<open>
  String escapes. A \<^verbatim>\<open>\uXXXX\<close> escape names a UTF-16 code unit; the string being
  bytes, the code point is written in UTF-8, a surrogate pair as the one code point it
  encodes.
\<close>

definition utf8_encode :: "nat \<Rightarrow> string" where
  "utf8_encode cp =
     (if cp < 128 then [char_of cp]
      else if cp < 2048 then [char_of (192 + cp div 64), char_of (128 + cp mod 64)]
      else if cp < 65536 then
        [char_of (224 + cp div 4096), char_of (128 + cp div 64 mod 64), char_of (128 + cp mod 64)]
      else
        [char_of (240 + cp div 262144), char_of (128 + cp div 4096 mod 64),
         char_of (128 + cp div 64 mod 64), char_of (128 + cp mod 64)])"

definition hex4 :: "string \<Rightarrow> nat option" where
  "hex4 s =
     (case map hex_value s of
        [Some a, Some b, Some c, Some d] \<Rightarrow> Some (4096 * a + 256 * b + 16 * c + d)
      | _ \<Rightarrow> None)"

definition simple_escape :: "char \<Rightarrow> char option" where
  "simple_escape = map_of
     [(CHR 0x22, CHR 0x22), (CHR 0x5C, CHR 0x5C), (CHR ''/'', CHR ''/''),
      (CHR ''b'', CHR 0x08), (CHR ''f'', CHR 0x0C), (CHR ''n'', CHR 0x0A),
      (CHR ''r'', CHR 0x0D), (CHR ''t'', CHR 0x09)]"

text \<open>
  The low half of a surrogate pair, when the input goes on with one after a high half.
\<close>

definition low_surrogate :: "string \<Rightarrow> nat option" where
  "low_surrogate r =
     (if take 2 r = [CHR 0x5C, CHR ''u''] then
        (case hex4 (take 4 (drop 2 r)) of
           None \<Rightarrow> None
         | Some lo \<Rightarrow> if 56320 \<le> lo \<and> lo < 57344 then Some lo else None)
      else None)"

text \<open>The characters of a string after its opening quote, up to the closing one.\<close>

fun parse_chars :: "string \<Rightarrow> (string \<times> string) option" where
  "parse_chars [] = None"
| "parse_chars (c # cs) =
     (if c = CHR 0x22 then Some ([], cs)
      else if (of_char c :: nat) < 32 then None
      else if c = CHR 0x5C then
        (case cs of
           [] \<Rightarrow> None
         | e # r \<Rightarrow>
             if e = CHR ''u'' then
               (case hex4 (take 4 r) of
                  None \<Rightarrow> None
                | Some u \<Rightarrow>
                    (case (if 55296 \<le> u \<and> u < 56320 then low_surrogate (drop 4 r) else None) of
                       Some lo \<Rightarrow>
                         map_option (\<lambda>(str, rest). (utf8_encode (65536 + (u - 55296) * 1024 + (lo - 56320)) @ str, rest))
                           (parse_chars (drop 10 r))
                     | None \<Rightarrow>
                         map_option (\<lambda>(str, rest). (utf8_encode u @ str, rest))
                           (parse_chars (drop 4 r))))
             else
               (case simple_escape e of
                  None \<Rightarrow> None
                | Some x \<Rightarrow> map_option (\<lambda>(str, rest). (x # str, rest)) (parse_chars r)))
      else map_option (\<lambda>(str, rest). (c # str, rest)) (parse_chars cs))"

text \<open>A value that is not an array or an object: a string, a literal name or a number.\<close>

definition parse_scalar :: "string \<Rightarrow> (json \<times> string) option" where
  "parse_scalar s =
     (case s of
        [] \<Rightarrow> None
      | c # r \<Rightarrow>
          if c = CHR 0x22 then map_option (\<lambda>(str, rest). (JString str, rest)) (parse_chars r)
          else if take 4 s = ''true'' then Some (JBool True, drop 4 s)
          else if take 5 s = ''false'' then Some (JBool False, drop 5 s)
          else if take 4 s = ''null'' then Some (JNull, drop 4 s)
          else map_option (\<lambda>(lexeme, rest). (JNumber lexeme, rest)) (parse_number s))"

text \<open>
  A repeated member name keeps its first place and its last value, as in the object
  \<^verbatim>\<open>JSON.parse\<close> builds. (Names that are array indices, which an object enumerates
  first, are left where they stand; the order of the members plays no part below.)
\<close>

definition make_object :: "(string \<times> json) list \<Rightarrow> json" where
  "make_object ms = JObject (fold (\<lambda>(k, v) ob. obj_set ob k v) ms [])"

text \<open>
  Values, array elements and object members, by recursive descent. The first argument
  bounds the depth of the calls; each function returns what it read and the rest of the
  input.
\<close>

fun parse_value :: "nat \<Rightarrow> string \<Rightarrow> (json \<times> string) option"
  and parse_elements :: "nat \<Rightarrow> string \<Rightarrow> (json list \<times> string) option"
  and parse_members :: "nat \<Rightarrow> string \<Rightarrow> ((string \<times> json) list \<times> string) option"
where
  "parse_value 0 s = None"
| "parse_value (Suc n) s =
     (case s of
        [] \<Rightarrow> None
      | c # r \<Rightarrow>
          if c = CHR ''['' then
            (case skip_ws r of
               [] \<Rightarrow> None
             | c' # r' \<Rightarrow>
                 if c' = CHR '']'' then Some (JArray [], r')
                 else map_option (\<lambda>(vs, rest). (JArray vs, rest)) (parse_elements n (c' # r')))
          else if c = CHR ''{'' then
            (case skip_ws r of
               [] \<Rightarrow> None
             | c' # r' \<Rightarrow>
                 if c' = CHR ''}'' then Some (JObject [], r')
                 else map_option (\<lambda>(ms, rest). (make_object ms, rest)) (parse_members n (c' # r')))
          else parse_scalar s)"
| "parse_elements 0 s = None"
| "parse_elements (Suc n) s =
     (case parse_value n s of
        None \<Rightarrow> None
      | Some (v, r) \<Rightarrow>
          (case skip_ws r of
             [] \<Rightarrow> None
           | c # r' \<Rightarrow>
               if c = CHR '']'' then Some ([v], r')
               else if c = CHR '','' then
                 map_option (\<lambda>(vs, rest). (v # vs, rest)) (parse_elements n (skip_ws r'))
               else None))"
| "parse_members 0 s = None"
| "parse_members (Suc n) s =
     (case s of
        [] \<Rightarrow> None
      | q # r \<Rightarrow>
          if q = CHR 0x22 then
            (case parse_chars r of
               None \<Rightarrow> None
             | Some (k, r1) \<Rightarrow>
                 (case skip_ws r1 of
                    [] \<Rightarrow> None
                  | c1 # r2 \<Rightarrow>
                      if c1 = CHR '':'' then
                        (case parse_value n (skip_ws r2) of
                           None \<Rightarrow> None
                         | Some (v, r3) \<Rightarrow>
                             (case skip_ws r3 of
                                [] \<Rightarrow> None
                              | c3 # r4 \<Rightarrow>
                                  if c3 = CHR ''}'' then Some ([(k, v)], r4)
                                  else if c3 = CHR '','' then
                                    map_option (\<lambda>(ms, rest). ((k, v) # ms, rest))
                                      (parse_members n (skip_ws r4))
                                  else None))
                      else None))
          else None)"

text \<open>
  \<^verbatim>\<open>JSON.parse(text)\<close>: one value between optional white space and nothing else;
  \<open>None\<close> is the \<^verbatim>\<open>SyntaxError\<close> it throws. The bound it starts with is more than a
  text of its length can use (\<open>JSON_parse_bound_enough\<close> below).
\<close>

definition JSON_parse :: "string \<Rightarrow> json option" where
  "JSON_parse s =
     (case parse_value (2 * length s + 2) (skip_ws s) of
        None \<Rightarrow> None
      | Some (v, rest) \<Rightarrow> if skip_ws rest = [] then Some v else None)"

section \<open>The callback decoder\<close>

text \<open>
  \<^verbatim>\<open>callbackData\<close> starts as \<^verbatim>\<open>{}\<close> and is filled by \<^verbatim>\<open>callbackData[key] = ...\<close>.
  It is modelled by its own properties. An assignment to the name \<^verbatim>\<open>__proto__\<close>
  reaches the setter inherited from \<^verbatim>\<open>Object.prototype\<close> and creates no own
  property; the decoder only ever assigns a string under that name, which the setter
  ignores.
\<close>

type_synonym callbackData = "string \<rightharpoonup> json"

definition cb_assign :: "callbackData \<Rightarrow> string \<Rightarrow> json \<Rightarrow> callbackData" where
  "cb_assign d key v = (if key = ''__proto__'' then d else d(key \<mapsto> v))"

text \<open>
  Truthiness of a stored value, for the test \<^verbatim>\<open>!callbackData[key]\<close>. A number is
  falsy when it is zero, that is when its mantissa has no digit but 0.
\<close>

definition number_is_zero :: "string \<Rightarrow> bool" where
  "number_is_zero lexeme =
     (filter (\<lambda>c. c \<in> set ''123456789'')
        (takeWhile (\<lambda>c. c \<noteq> CHR ''e'' \<and> c \<noteq> CHR ''E'') lexeme) = [])"

fun json_truthy :: "json \<Rightarrow> bool" where
  "json_truthy JNull = False"
| "json_truthy (JBool b) = b"
| "json_truthy (JNumber lexeme) = (\<not> number_is_zero lexeme)"
| "json_truthy (JString s) = (s \<noteq> [])"
| "json_truthy (JArray vs) = True"
| "json_truthy (JObject ms) = True"

definition cb_truthy :: "callbackData \<Rightarrow> string \<Rightarrow> bool" where
  "cb_truthy d key = (case d key of None \<Rightarrow> False | Some v \<Rightarrow> json_truthy v)"

text \<open>
  The body of the loop over \<^verbatim>\<open>searchParams.entries()\<close> is one chain of four guarded
  assignments to \<^verbatim>\<open>callbackData[key]\<close>. \<open>decoded_value\<close> is that chain, with the value
  each branch assigns.
\<close>

definition decoded_value :: "callbackData \<Rightarrow> string \<Rightarrow> string \<Rightarrow> json" where
  "decoded_value d key value =
     (if key = ''notes'' \<or> key = ''tags'' then
        (case JSON_parse value of Some v \<Rightarrow> v | None \<Rightarrow> JString value)
      else if key = ''tags'' \<and> \<not> cb_truthy d key then
        (if value \<noteq> [] then JArray (map JString (filter (\<lambda>p. p \<noteq> []) (split_on CHR '','' value)))
         else JArray [])
      else if key = ''is_trashed'' \<or> key = ''pin'' then JBool (value = ''yes'')
      else JString value)"

definition decode_entry :: "callbackData \<Rightarrow> string \<times> string \<Rightarrow> callbackData" where
  "decode_entry d entry = cb_assign d (fst entry) (decoded_value d (fst entry) (snd entry))"

definition decode_callback :: "(string \<times> string) list \<Rightarrow> callbackData" where
  "decode_callback entries = foldl decode_entry Map.empty entries"

subsection \<open>The branches of the chain\<close>

text \<open>
  Which of the four branches the chain takes: the same guards, in the same order, with
  the name of the branch in place of its body. \<open>branch_value\<close> is the body of each.
\<close>

datatype branch = JsonArray | CommaSeparated | YesNo | Plain

definition decode_branch :: "callbackData \<Rightarrow> string \<Rightarrow> branch" where
  "decode_branch d key =
     (if key = ''notes'' \<or> key = ''tags'' then JsonArray
      else if key = ''tags'' \<and> \<not> cb_truthy d key then CommaSeparated
      else if key = ''is_trashed'' \<or> key = ''pin'' then YesNo
      else Plain)"

fun branch_value :: "branch \<Rightarrow> string \<Rightarrow> json" where
  "branch_value JsonArray value =
     (case JSON_parse value of Some v \<Rightarrow> v | None \<Rightarrow> JString value)"
| "branch_value CommaSeparated value =
     (if value \<noteq> [] then JArray (map JString (filter (\<lambda>p. p \<noteq> []) (split_on CHR '','' value)))
      else JArray [])"
| "branch_value YesNo value = JBool (value = ''yes'')"
| "branch_value Plain value = JString value"

subsection \<open>The decoding rules as the specification words them\<close>

text \<open>
  The rule table of the specification, keyed by field name: the collections
  \<^verbatim>\<open>notes\<close> and \<^verbatim>\<open>tags\<close> are parsed as JSON with the raw string as fallback, the
  flags \<^verbatim>\<open>is_trashed\<close> and \<^verbatim>\<open>pin\<close> are true exactly for \<^verbatim>\<open>yes\<close>, anything else is
  the raw string.
\<close>

datatype rule = JsonOrRaw | YesFlag | PassThrough



section \<open>Errors\<close>

text \<open>
  The errors the server throws. A message is either a text, or a template literal that
  ends with the message of the error it reports
  (\<^verbatim>\<open>`Tool execution failed: ${error.message}`\<close>).
\<close>

datatype error_code = MethodNotFound | InvalidParams | InternalError

datatype js_error =
    McpError error_code message
  | Error message
  | TypeError
and message =
    Text string
  | MessageOf string js_error

text \<open>
  \<open>TypeError\<close> is the error the runtime throws when a property of \<^verbatim>\<open>undefined\<close> is
  read; its message is the runtime's own.
\<close>

section \<open>The tool handlers\<close>

text \<open>
  The tool arguments of a request are an object, or absent. The handlers read a
  property by \<^verbatim>\<open>args.name\<close>; a missing property reads as \<^verbatim>\<open>undefined\<close>. The values
  are taken to have the types the tool schemas declare, string or boolean, with
  \<^verbatim>\<open>undefined\<close> and \<^verbatim>\<open>null\<close>.
\<close>

type_synonym arguments = "string \<rightharpoonup> jsvalue"

definition arg_of :: "arguments \<Rightarrow> string \<Rightarrow> jsvalue" where
  "arg_of args name = (case args name of None \<Rightarrow> Undefined | Some v \<Rightarrow> v)"

text \<open>
  One constructor for each handler method of the class (\<^verbatim>\<open>openNote\<close>,
  \<^verbatim>\<open>createNote\<close>, ...).
\<close>

datatype tool =
    OpenNote | CreateNote | AddText | AddFile | Search | GetTags | OpenTag | TrashNote
  | ArchiveNote | GetUntagged | GetTodo | GetToday | GetLocked | GrabUrl | RenameTag
  | DeleteTag

text \<open>
  The bodies of the handlers are sequences of two kinds of statement:
  \<^verbatim>\<open>if (args.k) params.k = args.k;\<close> and \<^verbatim>\<open>if (args.k) params.k = "yes";\<close>.
\<close>

datatype stmt = Copy string | Flag string

fun exec_stmt :: "arguments \<Rightarrow> jsvalue obj \<Rightarrow> stmt \<Rightarrow> jsvalue obj" where
  "exec_stmt args params (Copy k) =
     (if truthy (arg_of args k) then obj_set params k (arg_of args k) else params)"
| "exec_stmt args params (Flag k) =
     (if truthy (arg_of args k) then obj_set params k (Str ''yes'') else params)"

text \<open>The object literal each handler starts its \<^verbatim>\<open>params\<close> with.\<close>

fun handler_init :: "tool \<Rightarrow> arguments \<Rightarrow> jsvalue obj" where
  "handler_init GetTags args = [(''token'', arg_of args ''token'')]"
| "handler_init OpenTag args = [(''name'', arg_of args ''name'')]"
| "handler_init GrabUrl args = [(''url'', arg_of args ''url'')]"
| "handler_init RenameTag args =
     [(''name'', arg_of args ''name''), (''new_name'', arg_of args ''new_name'')]"
| "handler_init DeleteTag args = [(''name'', arg_of args ''name'')]"
| "handler_init _ args = []"

text \<open>The statements of each handler, in the order of the source.\<close>

fun handler_stmts :: "tool \<Rightarrow> stmt list" where
  "handler_stmts OpenNote =
     [Copy ''id'', Copy ''title'', Copy ''header'', Flag ''exclude_trashed'',
      Flag ''new_window'', Flag ''edit'', Copy ''selected'', Flag ''pin'', Flag ''float'',
      Flag ''show_window'', Flag ''open_note'', Copy ''search'']"
| "handler_stmts CreateNote =
     [Copy ''title'', Copy ''text'', Copy ''tags'', Flag ''pin'', Flag ''timestamp'',
      Flag ''clipboard'', Copy ''file'', Copy ''filename'', Flag ''open_note'',
      Flag ''new_window'', Flag ''float'', Flag ''show_window'', Flag ''edit'', Copy ''type'',
      Copy ''url'']"
| "handler_stmts AddText =
     [Copy ''id'', Copy ''title'', Copy ''text'', Copy ''mode'', Flag ''new_line'',
      Copy ''header'', Copy ''selected'', Flag ''clipboard'', Flag ''exclude_trashed'',
      Flag ''open_note'', Flag ''new_window'', Flag ''show_window'', Flag ''edit'',
      Flag ''timestamp'']"
| "handler_stmts Search =
     [Copy ''term'', Copy ''tag'', Copy ''token'', Flag ''show_window'']"
| "handler_stmts GetTags = []"
| "handler_stmts OpenTag = [Copy ''token'', Flag ''show_window'']"
| "handler_stmts TrashNote = [Copy ''id'', Copy ''search'', Flag ''show_window'']"
| "handler_stmts ArchiveNote = [Copy ''id'', Copy ''search'', Flag ''show_window'']"
| "handler_stmts GetUntagged = [Copy ''search'', Copy ''token'', Flag ''show_window'']"
| "handler_stmts GetTodo = [Copy ''search'', Copy ''token'', Flag ''show_window'']"
| "handler_stmts GetToday = [Copy ''search'', Copy ''token'', Flag ''show_window'']"
| "handler_stmts GetLocked = [Copy ''search'', Flag ''show_window'']"
| "handler_stmts AddFile =
     [Copy ''id'', Copy ''title'', Copy ''selected'', Copy ''file'', Copy ''header'',
      Copy ''filename'', Copy ''mode'', Flag ''open_note'', Flag ''new_window'',
      Flag ''show_window'', Flag ''edit'']"
| "handler_stmts GrabUrl = [Copy ''tags'', Flag ''pin'', Flag ''wait'']"
| "handler_stmts RenameTag = [Flag ''show_window'']"
| "handler_stmts DeleteTag = [Flag ''show_window'']"

definition handler_params :: "tool \<Rightarrow> arguments \<Rightarrow> jsvalue obj" where
  "handler_params t args = foldl (exec_stmt args) (handler_init t args) (handler_stmts t)"

text \<open>The action of the URL scheme each handler addresses.\<close>

fun handler_action :: "tool \<Rightarrow> string" where
  "handler_action OpenNote = ''open-note''"
| "handler_action CreateNote = ''create''"
| "handler_action AddText = ''add-text''"
| "handler_action AddFile = ''add-file''"
| "handler_action Search = ''search''"
| "handler_action GetTags = ''tags''"
| "handler_action OpenTag = ''open-tag''"
| "handler_action TrashNote = ''trash''"
| "handler_action ArchiveNote = ''archive''"
| "handler_action GetUntagged = ''untagged''"
| "handler_action GetTodo = ''todo''"
| "handler_action GetToday = ''today''"
| "handler_action GetLocked = ''locked''"
| "handler_action GrabUrl = ''grab-url''"
| "handler_action RenameTag = ''rename-tag''"
| "handler_action DeleteTag = ''delete-tag''"

text \<open>
  Whether the handler awaits \<^verbatim>\<open>executeWithCallback(action, params)\<close> or builds the URL
  and awaits \<^verbatim>\<open>executeURL(url)\<close>. (In \<^verbatim>\<open>src/index.ts\<close>, which has no callback
  receiver, the same handlers build the same \<^verbatim>\<open>params\<close> and all await
  \<^verbatim>\<open>executeURL\<close>.)
\<close>

fun with_callback :: "tool \<Rightarrow> bool" where
  "with_callback OpenNote = True"
| "with_callback CreateNote = True"
| "with_callback Search = True"
| "with_callback GetTags = True"
| "with_callback OpenTag = True"
| "with_callback GetUntagged = True"
| "with_callback GetTodo = True"
| "with_callback GetToday = True"
| "with_callback GrabUrl = True"
| "with_callback _ = False"

text \<open>
  What a handler does up to its first \<^verbatim>\<open>await\<close>: it throws, or it has started one of
  the two ways of opening a URL.
\<close>

datatype dispatch =
    ExecuteWithCallback string "jsvalue obj"
  | ExecuteURL string

definition handler :: "tool \<Rightarrow> arguments \<Rightarrow> js_error + dispatch" where
  "handler t args =
     (if t = GetTags \<and> \<not> truthy (arg_of args ''token'')
      then Inl (McpError InvalidParams (Text ''Token is required for getTags''))
      else if with_callback t
      then Inr (ExecuteWithCallback (handler_action t) (handler_params t args))
      else Inr (ExecuteURL (buildBearURL (handler_action t) (handler_params t args))))"

text \<open>The boolean properties of each tool's \<^verbatim>\<open>inputSchema\<close>.\<close>

fun boolean_flags :: "tool \<Rightarrow> string list" where
  "boolean_flags OpenNote =
     [''exclude_trashed'', ''new_window'', ''edit'', ''pin'', ''float'', ''show_window'',
      ''open_note'']"
| "boolean_flags CreateNote =
     [''pin'', ''timestamp'', ''clipboard'', ''open_note'', ''new_window'', ''float'',
      ''show_window'', ''edit'']"
| "boolean_flags AddText =
     [''new_line'', ''clipboard'', ''exclude_trashed'', ''open_note'', ''new_window'',
      ''show_window'', ''edit'', ''timestamp'']"
| "boolean_flags AddFile = [''open_note'', ''new_window'', ''show_window'', ''edit'']"
| "boolean_flags GetTags = []"
| "boolean_flags GrabUrl = [''pin'', ''wait'']"
| "boolean_flags _ = [''show_window'']"

section \<open>The server and its request handler\<close>

text \<open>
  The class has a field \<^verbatim>\<open>token\<close>; the constructor, given the environment of the
  process, creates the protocol server and installs the handlers.
\<close>

record BearMCPServer =
  token :: "string option"

definition new_BearMCPServer :: "(string \<rightharpoonup> string) \<Rightarrow> BearMCPServer" where
  "new_BearMCPServer env = \<lparr>token = None\<rparr>"

text \<open>The \<^verbatim>\<open>switch (name)\<close> of the request handler.\<close>

definition tool_named :: "string \<Rightarrow> tool option" where
  "tool_named = map_of
     [(''bear_open_note'', OpenNote), (''bear_create_note'', CreateNote),
      (''bear_add_text'', AddText), (''bear_add_file'', AddFile), (''bear_search'', Search),
      (''bear_get_tags'', GetTags), (''bear_open_tag'', OpenTag),
      (''bear_trash_note'', TrashNote), (''bear_archive_note'', ArchiveNote),
      (''bear_get_untagged'', GetUntagged), (''bear_get_todo'', GetTodo),
      (''bear_get_today'', GetToday), (''bear_get_locked'', GetLocked),
      (''bear_grab_url'', GrabUrl), (''bear_rename_tag'', RenameTag),
      (''bear_delete_tag'', DeleteTag)]"

text \<open>
  The body of the \<^verbatim>\<open>try\<close>: the handler of the named tool is called with
  \<^verbatim>\<open>request.params.arguments\<close>. Every handler begins by reading a property of its
  argument, which throws when the request has no arguments.
\<close>

definition call_handler :: "BearMCPServer \<Rightarrow> string \<Rightarrow> arguments option \<Rightarrow> js_error + dispatch" where
  "call_handler this name args =
     (case tool_named name of
        None \<Rightarrow> Inl (McpError MethodNotFound (Text (''Unknown tool: '' @ name)))
      | Some t \<Rightarrow>
          (case args of
             None \<Rightarrow> Inl TypeError
           | Some a \<Rightarrow> handler t a))"

text \<open>
  The request handler up to the first \<^verbatim>\<open>await\<close>: whatever the \<^verbatim>\<open>try\<close> throws is
  caught and thrown again as an internal error.
\<close>

definition callTool :: "BearMCPServer \<Rightarrow> string \<Rightarrow> arguments option \<Rightarrow> js_error + dispatch" where
  "callTool this name args =
     (case call_handler this name args of
        Inl error \<Rightarrow> Inl (McpError InternalError (MessageOf ''Tool execution failed: '' error))
      | Inr d \<Rightarrow> Inr d)"

section \<open>The callback receiver\<close>

text \<open>
  \<^verbatim>\<open>executeURL\<close> runs \<^verbatim>\<open>open "url"\<close> and awaits the process. The process either
  ends, with what it wrote to its two streams, or the command fails with a message.
\<close>

datatype exec_result = Exited string string | Failed string

definition executeURL :: "exec_result \<Rightarrow> js_error + string" where
  "executeURL r =
     (case r of
        Failed m \<Rightarrow>
          Inl (McpError InternalError (MessageOf ''Failed to execute Bear URL: '' (Error (Text m))))
      | Exited out err \<Rightarrow>
          if err \<noteq> [] then
            Inl (McpError InternalError (MessageOf ''Failed to execute Bear URL: ''
                   (Error (Text (''Bear command failed: '' @ err)))))
          else Inr out)"

text \<open>The port number as the template literal prints it.\<close>

fun decimal :: "nat \<Rightarrow> string" where
  "decimal n =
     (if n < 10 then [''0123456789'' ! n]
      else decimal (n div 10) @ [''0123456789'' ! (n mod 10)])"

declare decimal.simps [simp del]

definition callbackUrl :: "nat \<Rightarrow> string" where
  "callbackUrl port = ''http://localhost:'' @ decimal port @ ''/callback''"

text \<open>
  The URL the \<^verbatim>\<open>listen\<close> callback builds, after it has stored the callback address in
  \<^verbatim>\<open>params['x-success']\<close>.
\<close>

definition bearUrl :: "string \<Rightarrow> jsvalue obj \<Rightarrow> nat \<Rightarrow> string" where
  "bearUrl action params port =
     buildBearURL action (obj_set params ''x-success'' (Str (callbackUrl port)))"

text \<open>
  \<^verbatim>\<open>executeWithCallback(action, params)\<close> creates a promise and an HTTP server, asks the
  server to listen on port 0, and returns the promise. Everything else happens in
  callbacks. The state they share: the listener, the promise (pending, or settled with an
  error or with the decoded data; settling a settled promise does nothing), the timer
  (the delay it was set with, while it is pending), the URLs handed to \<^verbatim>\<open>executeURL\<close>,
  and whether the process that opens the URL is still running.
\<close>

datatype listener_state = Starting | Open | Closed

record receiver =
  listener :: listener_state
  promise :: "(js_error + callbackData) option"
  timer :: "nat option"
  opened :: "string list"
  running :: bool

definition executeWithCallback :: receiver where
  "executeWithCallback =
     \<lparr>listener = Starting, promise = None, timer = None, opened = [], running = False\<rparr>"

definition settle :: "js_error + callbackData \<Rightarrow> receiver \<Rightarrow> receiver" where
  "settle r s = (case promise s of None \<Rightarrow> s\<lparr>promise := Some r\<rparr> | Some settled \<Rightarrow> s)"

text \<open>
  What the event loop can deliver: the callback of \<^verbatim>\<open>server.listen\<close>, with the port of
  \<^verbatim>\<open>server.address()\<close> when that is an object; an inbound request, with its
  \<^verbatim>\<open>req.url\<close> (empty when it has none) and the exception, if any, raised inside the
  \<^verbatim>\<open>try\<close> block of the request handler (the \<^verbatim>\<open>catch\<close> block that handles it is taken
  to run to its end); the end of the process that opens the URL; the timer.
\<close>

datatype event =
    Listening "nat option"
  | Request string "js_error option"
  | Finished exec_result
  | Timeout

text \<open>
  One callback. An event that cannot occur in a state (a second \<^verbatim>\<open>listen\<close> callback, a
  request to a listener that is not open, the end of a process that is not running, a
  timer that is not pending) leaves the state as it is.
\<close>

fun step :: "string \<Rightarrow> jsvalue obj \<Rightarrow> receiver \<Rightarrow> event \<Rightarrow> receiver" where
  "step action params s (Listening address) =
     (if listener s \<noteq> Starting then s
      else case address of
        Some port \<Rightarrow>
          s\<lparr>listener := Open,
            opened := opened s @ [bearUrl action params port],
            running := True,
            timer := Some 10000\<rparr>
      | None \<Rightarrow>
          settle (Inl (Error (Text ''Failed to start callback server''))) (s\<lparr>listener := Open\<rparr>))"
| "step action params s (Request req_url thrown) =
     (if listener s \<noteq> Open \<or> req_url = [] then s
      else case thrown of
        None \<Rightarrow> settle (Inr (decode_callback (searchParams req_url))) (s\<lparr>listener := Closed\<rparr>)
      | Some error \<Rightarrow>
          settle (Inl (Error (MessageOf ''Failed to parse callback data: '' error)))
            (s\<lparr>listener := Closed\<rparr>))"
| "step action params s (Finished r) =
     (if \<not> running s then s
      else case executeURL r of
        Inl error \<Rightarrow> settle (Inl error) (s\<lparr>running := False\<rparr>)
      | Inr out \<Rightarrow> s\<lparr>running := False\<rparr>)"
| "step action params s Timeout =
     (case timer s of
        None \<Rightarrow> s
      | Some ms \<Rightarrow>
          settle (Inl (Error (Text ''Callback timeout''))) (s\<lparr>listener := Closed, timer := None\<rparr>))"

definition run :: "string \<Rightarrow> jsvalue obj \<Rightarrow> event list \<Rightarrow> receiver" where
  "run action params events = foldl (step action params) executeWithCallback events"

text \<open>The events that are inbound requests, and those that are a failed dispatch of the URL.\<close>

fun is_request :: "event \<Rightarrow> bool" where
  "is_request (Request req_url thrown) = True"
| "is_request _ = False"

fun dispatch_failure :: "event \<Rightarrow> bool" where
  "dispatch_failure (Finished r) = (case executeURL r of Inl error \<Rightarrow> True | Inr out \<Rightarrow> False)"
| "dispatch_failure _ = False"


text \<open>
  The URL a tool call hands to \<^verbatim>\<open>open\<close>: built by the handler itself, or by the
  callback receiver once its port is known.
\<close>

definition tool_url :: "tool \<Rightarrow> arguments \<Rightarrow> nat \<Rightarrow> string" where
  "tool_url t args port =
     (if with_callback t then bearUrl (handler_action t) (handler_params t args) port
      else buildBearURL (handler_action t) (handler_params t args))"

subsection \<open>Invariants of the receiver\<close>


text \<open>
  The states between the \<^verbatim>\<open>listen\<close> callback and the timer when no request arrives: the
  promise is pending with the timer set, or rejected; once the timer has fired the
  listener is closed.
\<close>

definition waiting :: "receiver \<Rightarrow> bool" where
  "waiting s \<longleftrightarrow>
     listener s \<noteq> Starting \<and>
     (case promise s of None \<Rightarrow> timer s \<noteq> None | Some (Inl e) \<Rightarrow> True | Some (Inr d) \<Rightarrow> False) \<and>
     (timer s = None \<longrightarrow> listener s = Closed)"


text \<open>Nothing but the timer has settled the promise.\<close>

definition undisturbed :: "receiver \<Rightarrow> bool" where
  "undisturbed s \<longleftrightarrow>
     promise s = None \<or> promise s = Some (Inl (Error (Text ''Callback timeout'')))"

section \<open>Properties of the URL builder\<close>

subsection \<open>Encoding and decoding of components\<close>

lemma hex_digit_safe:
  assumes "n < 16"
  shows "hex_digit n \<in> set ''0123456789ABCDEF''"
proof -
  have "list_all (\<lambda>k. hex_digit k \<in> set ''0123456789ABCDEF'') [0..<16]"
    by code_simp
  with assms show ?thesis by (simp add: list_all_iff)
qed

lemma hex_value_hex_digit:
  assumes "n < 16"
  shows "hex_value (hex_digit n) = Some n"
proof -
  have "list_all (\<lambda>k. hex_value (hex_digit k) = Some k) [0..<16]"
    by code_simp
  with assms show ?thesis by (simp add: list_all_iff)
qed

lemma encode_byte_safe: "set (encode_byte c) \<subseteq> set safe_chars"
proof -
  have "(of_char c :: nat) div 16 < 16" "(of_char c :: nat) mod 16 < 16"
    using nat_of_char_less_256 [of c] by arith+
  then have "hex_digit (of_char c div 16) \<in> set ''0123456789ABCDEF''"
    "hex_digit (of_char c mod 16) \<in> set ''0123456789ABCDEF''"
    by (simp_all only: hex_digit_safe)
  then show ?thesis
    unfolding encode_byte_def safe_chars_def by (simp del: set_simps) auto
qed

lemma encodeURIComponent_safe: "set (encodeURIComponent s) \<subseteq> set safe_chars"
  unfolding encodeURIComponent_def using encode_byte_safe by auto

lemma unsafe_chars:
  "CHR ''&'' \<notin> set safe_chars" "CHR ''='' \<notin> set safe_chars" "CHR ''+'' \<notin> set safe_chars"
  "CHR ''#'' \<notin> set safe_chars" "CHR ''?'' \<notin> set safe_chars"
  by (simp_all add: safe_chars_def uriUnescaped_def)

lemma percent_decode_encode_byte:
  "percent_decode (encode_byte c @ rest) = c # percent_decode rest"
proof (cases "c \<in> set uriUnescaped")
  case True
  then have "c \<noteq> CHR ''%''" by (auto simp: uriUnescaped_def)
  with True show ?thesis by (simp add: encode_byte_def)
next
  case False
  have lt: "(of_char c :: nat) div 16 < 16" "(of_char c :: nat) mod 16 < 16"
    using nat_of_char_less_256 [of c] by arith+
  have "char_of (16 * ((of_char c :: nat) div 16) + of_char c mod 16) = c"
    by simp
  with False show ?thesis
    by (simp add: encode_byte_def hex_value_hex_digit lt)
qed

lemma percent_decode_encodeURIComponent: "percent_decode (encodeURIComponent s) = s"
  by (induction s) (simp_all add: encodeURIComponent_def percent_decode_encode_byte)


lemma enc_avoids: "c \<notin> set safe_chars \<Longrightarrow> c \<notin> set (encodeURIComponent s)"
  using encodeURIComponent_safe [of s] by auto

lemma takeWhile_upto: "c \<notin> set xs \<Longrightarrow> takeWhile (\<lambda>x. x \<noteq> c) (xs @ c # ys) = xs"
  by (induction xs) auto

lemma dropWhile_upto: "c \<notin> set xs \<Longrightarrow> dropWhile (\<lambda>x. x \<noteq> c) (xs @ c # ys) = c # ys"
  by (induction xs) auto

lemma takeWhile_all: "c \<notin> set xs \<Longrightarrow> takeWhile (\<lambda>x. x \<noteq> c) xs = xs"
  by (induction xs) auto

lemma dropWhile_all: "c \<notin> set xs \<Longrightarrow> dropWhile (\<lambda>x. x \<noteq> c) xs = []"
  by (induction xs) auto

lemma set_join: "set (join sep parts) \<subseteq> set sep \<union> \<Union> (set ` set parts)"
  by (induction sep parts rule: join.induct) auto

lemma split_on_no_sep: "c \<notin> set p \<Longrightarrow> split_on c p = [p]"
  by (induction p) auto

lemma split_on_append: "c \<notin> set p \<Longrightarrow> split_on c (p @ c # rest) = p # split_on c rest"
  by (induction p) auto

lemma split_on_join:
  "parts \<noteq> [] \<Longrightarrow> (\<And>p. p \<in> set parts \<Longrightarrow> c \<notin> set p) \<Longrightarrow> split_on c (join [c] parts) = parts"
proof (induction "[c]" parts rule: join.induct)
  case 1
  then show ?case by simp
next
  case (2 p)
  then show ?case by (simp add: split_on_no_sep)
next
  case (3 p q ps)
  then show ?case by (simp add: split_on_append)
qed

lemma queryParts_avoid:
  "c \<notin> set safe_chars \<Longrightarrow> c \<noteq> CHR ''='' \<Longrightarrow> p \<in> set (queryParts params) \<Longrightarrow> c \<notin> set p"
  by (induction params rule: queryParts.induct) (auto simp: enc_avoids split: if_splits)

lemma queryParts_nonempty: "p \<in> set (queryParts params) \<Longrightarrow> p \<noteq> []"
  by (induction params rule: queryParts.induct) (auto split: if_splits)

lemma query_pieces_queryString: "query_pieces (queryString params) = queryParts params"
proof (cases "queryParts params = []")
  case True
  then show ?thesis by (simp add: query_pieces_def queryString_def)
next
  case False
  have "CHR ''&'' \<notin> set p" if "p \<in> set (queryParts params)" for p
    using queryParts_avoid [OF unsafe_chars(1) _ that] by simp
  with False have "split_on CHR ''&'' (join ''&'' (queryParts params)) = queryParts params"
    by (intro split_on_join) auto
  moreover have "filter (\<lambda>piece. piece \<noteq> []) (queryParts params) = queryParts params"
    using queryParts_nonempty by (intro filter_True) auto
  ultimately show ?thesis by (simp add: query_pieces_def queryString_def)
qed

lemma piece_name_part: "piece_name (encodeURIComponent k @ ''='' @ w) = encodeURIComponent k"
proof -
  have "CHR ''='' \<notin> set (encodeURIComponent k)"
    using encodeURIComponent_safe [of k] unsafe_chars(2) by auto
  then show ?thesis by (simp add: piece_name_def takeWhile_upto)
qed

lemma piece_value_part: "piece_value (encodeURIComponent k @ ''='' @ w) = w"
proof -
  have "CHR ''='' \<notin> set (encodeURIComponent k)"
    using encodeURIComponent_safe [of k] unsafe_chars(2) by auto
  then show ?thesis by (simp add: piece_value_def dropWhile_upto)
qed

lemma plus_to_space_encodeURIComponent: "plus_to_space (encodeURIComponent s) = encodeURIComponent s"
proof -
  have "CHR ''+'' \<notin> set (encodeURIComponent s)"
    using encodeURIComponent_safe [of s] unsafe_chars(3) by auto
  then show ?thesis unfolding plus_to_space_def by (intro map_idI) auto
qed

lemma parse_pair_part:
  "parse_pair (encodeURIComponent k @ ''='' @ encodeURIComponent w) = (k, w)"
  by (simp add: parse_pair_def piece_name_part piece_value_part
      plus_to_space_encodeURIComponent percent_decode_encodeURIComponent del: append.simps)

lemma encodeURIComponent_inj: "encodeURIComponent a = encodeURIComponent b \<Longrightarrow> a = b"
  by (metis percent_decode_encodeURIComponent)

lemma parse_queryParts: "map parse_pair (queryParts params) = defined_entries params"
  by (induction params rule: queryParts.induct) (simp_all add: parse_pair_part defined_entries_def del: append.simps)

lemma parse_urlencoded_queryString: "parse_urlencoded (queryString params) = defined_entries params"
  by (simp add: parse_urlencoded_def query_pieces_queryString parse_queryParts)

lemma filter_queryParts_other:
  "k \<notin> fst ` set params \<Longrightarrow> filter (\<lambda>p. piece_name p = encodeURIComponent k) (queryParts params) = []"
proof (induction params rule: queryParts.induct)
  case 1
  then show ?case by simp
next
  case (2 key val rest)
  then have "encodeURIComponent key \<noteq> encodeURIComponent k"
    using encodeURIComponent_inj by auto
  with 2 show ?case by (simp add: piece_name_part del: append.simps)
qed

lemma filter_queryParts_key:
  "distinct (map fst params) \<Longrightarrow> (k, v) \<in> set params \<Longrightarrow>
   filter (\<lambda>p. piece_name p = encodeURIComponent k) (queryParts params) =
     (if v = Undefined \<or> v = Null then [] else [encodeURIComponent k @ ''='' @ encodeURIComponent (String v)])"
proof (induction params rule: queryParts.induct)
  case 1
  then show ?case by simp
next
  case (2 key val rest)
  show ?case
  proof (cases "key = k")
    case True
    with 2 have "val = v" "k \<notin> fst ` set rest" by (auto simp: image_iff)
    with True show ?thesis
      by (simp add: piece_name_part filter_queryParts_other del: append.simps)
  next
    case False
    then have "encodeURIComponent key \<noteq> encodeURIComponent k"
      using encodeURIComponent_inj by auto
    with False 2 show ?thesis by (simp add: piece_name_part del: append.simps)
  qed
qed

lemma queryString_avoid:
  "c \<notin> set safe_chars \<Longrightarrow> c \<noteq> CHR ''='' \<Longrightarrow> c \<noteq> CHR ''&'' \<Longrightarrow> c \<notin> set (queryString params)"
  using set_join [of "''&''" "queryParts params"] queryParts_avoid [of c _ params]
  by (auto simp: queryString_def)

lemma url_query_buildBearURL:
  assumes "CHR ''?'' \<notin> set action" and "CHR ''#'' \<notin> set action"
  shows "url_query (buildBearURL action params) = queryString params"
proof -
  have q: "CHR ''?'' \<notin> set (baseURL action)" and h: "CHR ''#'' \<notin> set (baseURL action)"
    using assms by (simp_all add: baseURL_def)
  have hq: "CHR ''#'' \<notin> set (queryString params)"
    by (rule queryString_avoid) (simp_all add: unsafe_chars)
  show ?thesis
  proof (cases "queryString params = []")
    case True
    with q h show ?thesis
      by (simp add: url_query_def buildBearURL_def takeWhile_all dropWhile_all)
  next
    case False
    have "CHR ''#'' \<notin> set (baseURL action @ ''?'' @ queryString params)"
      using h hq by simp
    then have "takeWhile (\<lambda>c. c \<noteq> CHR ''#'') (baseURL action @ ''?'' @ queryString params)
        = baseURL action @ ''?'' @ queryString params"
      by (rule takeWhile_all)
    with False q show ?thesis
      by (simp add: url_query_def buildBearURL_def dropWhile_upto)
  qed
qed

subsection \<open>The claims about the URL builder\<close>

lemma queryParts_all_absent:
  "\<forall>e \<in> set params. snd e = Undefined \<or> snd e = Null \<Longrightarrow> queryParts params = []"
  by (induction params rule: queryParts.induct) auto

text \<open>
  C10. For every action name, a parameter mapping that is empty, or whose values are all
  undefined or null, builds exactly \<^verbatim>\<open>bear://x-callback-url/<action>\<close>: nothing, and
  in particular no \<^verbatim>\<open>?\<close>, follows the action.
\<close>

theorem buildBearURL_without_query:
  assumes "\<forall>e \<in> set params. snd e = Undefined \<or> snd e = Null"
  shows "buildBearURL action params = ''bear://x-callback-url/'' @ action"
  using queryParts_all_absent [OF assms]
  by (simp add: buildBearURL_def queryString_def baseURL_def)

theorem buildBearURL_without_query_witness:
  "buildBearURL ''tags'' [] = ''bear://x-callback-url/tags''
   \<and> buildBearURL ''open-tag'' [(''name'', Undefined), (''token'', Null)] = ''bear://x-callback-url/open-tag''"
  using buildBearURL_without_query [of "[]" "''tags''"]
    buildBearURL_without_query [of "[(''name'', Undefined), (''token'', Null)]" "''open-tag''"]
  by simp

text \<open>
  C2. For every parameter mapping (an object: no name occurs twice), the query string the
  builder puts out has, for each key whose value is defined and non-null, exactly one
  piece under that key, and this piece is the percent-encoded key, \<^verbatim>\<open>=\<close>, and the
  percent-encoded value; for a key whose value is undefined or null it has no piece.
  The query follows the action after one \<^verbatim>\<open>?\<close>, and parsing it gives back exactly the
  defined entries.
\<close>

theorem buildBearURL_each_key_once:
  assumes "distinct (map fst params)" and "(k, v) \<in> set params"
  shows "filter (\<lambda>piece. piece_name piece = encodeURIComponent k) (query_pieces (queryString params))
           = (if v = Undefined \<or> v = Null then []
              else [encodeURIComponent k @ ''='' @ encodeURIComponent (String v)])
         \<and> parse_urlencoded (queryString params) = defined_entries params
         \<and> buildBearURL action params
             = baseURL action @ (if queryString params = [] then [] else ''?'' @ queryString params)"
  using filter_queryParts_key [OF assms]
  by (simp add: query_pieces_queryString parse_urlencoded_queryString buildBearURL_def)

theorem buildBearURL_each_key_once_witness:
  "distinct (map fst [(''title'', Str ''a b''), (''pin'', Boolean True), (''id'', Null)])
   \<and> filter (\<lambda>piece. piece_name piece = ''title'')
        (query_pieces (queryString [(''title'', Str ''a b''), (''pin'', Boolean True), (''id'', Null)]))
       = [''title=a%20b'']
   \<and> filter (\<lambda>piece. piece_name piece = ''id'')
        (query_pieces (queryString [(''title'', Str ''a b''), (''pin'', Boolean True), (''id'', Null)]))
       = []
   \<and> buildBearURL ''create'' [(''title'', Str ''a b''), (''pin'', Boolean True), (''id'', Null)]
       = ''bear://x-callback-url/create?title=a%20b&pin=true''"
proof -
  let ?ps = "[(''title'', Str ''a b''), (''pin'', Boolean True), (''id'', Null)]"
  have d: "distinct (map fst ?ps)" by simp
  have enc: "encodeURIComponent ''title'' = ''title''" "encodeURIComponent ''id'' = ''id''"
    "encodeURIComponent ''a b'' = ''a%20b''"
    by (simp_all add: encodeURIComponent_def encode_byte_def uriUnescaped_def hex_digit_def)
  have q: "queryString ?ps = ''title=a%20b&pin=true''"
    by (simp add: queryString_def encodeURIComponent_def encode_byte_def uriUnescaped_def hex_digit_def)
  have t: "(''title'', Str ''a b'') \<in> set ?ps" and i: "(''id'', Null) \<in> set ?ps" by simp_all
  show ?thesis
    using buildBearURL_each_key_once [OF d t, of "''create''"]
      buildBearURL_each_key_once [OF d i, of "''create''"]
    by (simp add: enc q baseURL_def)
qed

text \<open>
  The query of the built URL, read back the way a URL is read (what follows the first
  \<^verbatim>\<open>?\<close>), is that query string, for an action without \<^verbatim>\<open>?\<close> and \<^verbatim>\<open>#\<close>.
\<close>

lemma searchParams_buildBearURL:
  "CHR ''?'' \<notin> set action \<Longrightarrow> CHR ''#'' \<notin> set action \<Longrightarrow>
   searchParams (buildBearURL action params) = defined_entries params"
  by (simp add: searchParams_def url_query_buildBearURL parse_urlencoded_queryString)

section \<open>Properties of the JSON parser\<close>

text \<open>
  Every parsing function reads at least one byte, and a result obtained with some bound
  on the depth of the calls is obtained with every bound of at least twice the number of
  bytes read. So the bound \<open>JSON_parse\<close> starts with never makes it fail.
\<close>

lemma length_skip_ws: "length (skip_ws s) \<le> length s"
  by (simp add: skip_ws_def length_dropWhile_le)

lemma skip_ws_Cons: "skip_ws s = c # r \<Longrightarrow> length r < length s"
  using length_skip_ws [of s] by simp

lemma parse_chars_shorter: "parse_chars s = Some (str, rest) \<Longrightarrow> length rest < length s"
proof (induction s arbitrary: str rest rule: parse_chars.induct)
  case 1
  then show ?case by simp
next
  case (2 c cs)
  then show ?case
    by (fastforce split: if_splits list.splits option.splits)
qed

lemma scan_int_shorter: "scan_int s = Some (ds, rest) \<Longrightarrow> length rest < length s"
proof -
  assume a: "scan_int s = Some (ds, rest)"
  then have "takeWhile is_digit s \<noteq> []" and "rest = dropWhile is_digit s"
    by (auto simp: scan_int_def Let_def split: if_splits)
  moreover have "length (takeWhile is_digit s) + length (dropWhile is_digit s) = length s"
    by (metis length_append takeWhile_dropWhile_id)
  ultimately show ?thesis by (cases "takeWhile is_digit s") auto
qed

lemma scan_frac_shorter: "scan_frac s = Some (ds, rest) \<Longrightarrow> length rest \<le> length s"
  by (auto simp: scan_frac_def le_SucI length_dropWhile_le split: list.splits if_splits)

lemma scan_sign_shorter: "scan_sign s = (sg, rest) \<Longrightarrow> length rest \<le> length s"
  by (auto simp: scan_sign_def split: list.splits if_splits)

lemma scan_exp_shorter: "scan_exp s = Some (ds, rest) \<Longrightarrow> length rest \<le> length s"
proof (cases s)
  case Nil
  then show "scan_exp s = Some (ds, rest) \<Longrightarrow> ?thesis" by (simp add: scan_exp_def)
next
  case (Cons c r)
  assume a: "scan_exp s = Some (ds, rest)"
  obtain sg r' where sg: "scan_sign r = (sg, r')" by (cases "scan_sign r")
  have "length (dropWhile is_digit r') \<le> length r'" by (rule length_dropWhile_le)
  with a Cons sg scan_sign_shorter [OF sg] show ?thesis
    by (auto simp: scan_exp_def split: if_splits)
qed

lemma parse_number_shorter: "parse_number s = Some (lexeme, rest) \<Longrightarrow> length rest < length s"
proof -
  assume a: "parse_number s = Some (lexeme, rest)"
  obtain minus s0 where m: "(case s of [] \<Rightarrow> ([], []) | c # r \<Rightarrow> if c = CHR ''-'' then ([c], r) else ([], s)) = (minus, s0)"
    by (cases "(case s of [] \<Rightarrow> ([], []) | c # r \<Rightarrow> if c = CHR ''-'' then ([c], r) else ([], s))") auto
  then have l0: "length s0 \<le> length s"
    by (auto split: list.splits if_splits)
  from a m obtain ip s1 fp s2 ep where
    "scan_int s0 = Some (ip, s1)" "scan_frac s1 = Some (fp, s2)" "scan_exp s2 = Some (ep, rest)"
    by (auto simp: parse_number_def split: option.splits)
  then show ?thesis
    using l0 scan_int_shorter scan_frac_shorter scan_exp_shorter
    by (meson le_trans less_le_trans not_le)
qed

lemma parse_scalar_shorter: "parse_scalar s = Some (v, rest) \<Longrightarrow> length rest < length s"
  by (cases s)
    (auto simp: parse_scalar_def dest: parse_chars_shorter parse_number_shorter
      split: if_splits)


lemma bound_enough:
  shows "parse_value f s = Some (v, rest) \<Longrightarrow>
           length rest < length s \<and>
           (\<forall>g. 2 * (length s - length rest) \<le> Suc g \<longrightarrow> parse_value g s = Some (v, rest))"
    and "parse_elements f s = Some (vs, rest) \<Longrightarrow>
           length rest < length s \<and>
           (\<forall>g. 2 * (length s - length rest) \<le> g \<longrightarrow> parse_elements g s = Some (vs, rest))"
    and "parse_members f s = Some (ms, rest) \<Longrightarrow>
           length rest < length s \<and>
           (\<forall>g. 2 * (length s - length rest) \<le> g \<longrightarrow> parse_members g s = Some (ms, rest))"
proof (induction f arbitrary: s v vs ms rest)
  case 0
  {
    case 1
    then show ?case by simp
  next
    case 2
    then show ?case by simp
  next
    case 3
    then show ?case by simp
  }
next
  case (Suc n)
  {
    case 1
    then obtain c r where s: "s = c # r" by (cases s) auto
    show ?case
    proof (cases "c = CHR ''[''")
      case True
      with 1 s obtain c' r' where w: "skip_ws r = c' # r'"
        by (cases "skip_ws r") auto
      have lr: "length r' < length r" using w by (rule skip_ws_Cons)
      show ?thesis
      proof (cases "c' = CHR '']''")
        case True
        with 1 s w \<open>c = CHR ''[''\<close> have "v = JArray []" "rest = r'" by auto
        moreover have "parse_value g s = Some (JArray [], r')" if "0 < g" for g
          using that s w \<open>c = CHR ''[''\<close> True by (cases g) auto
        ultimately show ?thesis using lr s by auto
      next
        case False
        with 1 s w \<open>c = CHR ''[''\<close> obtain es where
          e: "parse_elements n (c' # r') = Some (es, rest)" and v: "v = JArray es"
          by auto
        from Suc.IH(2) [OF e] have l: "length rest < length (c' # r')"
          and g: "\<And>g. 2 * (length (c' # r') - length rest) \<le> g \<Longrightarrow>
                    parse_elements g (c' # r') = Some (es, rest)"
          by auto
        have "parse_value g s = Some (v, rest)" if "2 * (length s - length rest) \<le> Suc g" for g
        proof -
          from that l lr s obtain g' where g': "g = Suc g'" by (cases g) auto
          with that l lr s have "2 * (length (c' # r') - length rest) \<le> g'" by auto
          then have "parse_elements g' (c' # r') = Some (es, rest)" by (rule g)
          then show ?thesis using g' s w \<open>c = CHR ''[''\<close> False v by auto
        qed
        then show ?thesis using l lr s by auto
      qed
    next
      case notarr: False
      show ?thesis
      proof (cases "c = CHR ''{''")
        case True
        with 1 s obtain c' r' where w: "skip_ws r = c' # r'"
          by (cases "skip_ws r") auto
        have lr: "length r' < length r" using w by (rule skip_ws_Cons)
        show ?thesis
        proof (cases "c' = CHR ''}''")
          case True
          with 1 s w \<open>c = CHR ''{''\<close> have "v = JObject []" "rest = r'" by auto
          moreover have "parse_value g s = Some (JObject [], r')" if "0 < g" for g
            using that s w \<open>c = CHR ''{''\<close> True by (cases g) auto
          ultimately show ?thesis using lr s by auto
        next
          case False
          with 1 s w \<open>c = CHR ''{''\<close> obtain es where
            e: "parse_members n (c' # r') = Some (es, rest)" and v: "v = make_object es"
            by auto
          from Suc.IH(3) [OF e] have l: "length rest < length (c' # r')"
            and g: "\<And>g. 2 * (length (c' # r') - length rest) \<le> g \<Longrightarrow>
                      parse_members g (c' # r') = Some (es, rest)"
            by auto
          have "parse_value g s = Some (v, rest)" if "2 * (length s - length rest) \<le> Suc g" for g
          proof -
            from that l lr s obtain g' where g': "g = Suc g'" by (cases g) auto
            with that l lr s have "2 * (length (c' # r') - length rest) \<le> g'" by auto
            then have "parse_members g' (c' # r') = Some (es, rest)" by (rule g)
            then show ?thesis using g' s w \<open>c = CHR ''{''\<close> False v by auto
          qed
          then show ?thesis using l lr s by auto
        qed
      next
        case False
        with 1 s notarr have p: "parse_scalar s = Some (v, rest)" by simp
        then have l: "length rest < length s" by (rule parse_scalar_shorter)
        have "parse_value g s = Some (v, rest)" if "0 < g" for g
          using that s notarr False p by (cases g) auto
        then show ?thesis using l by auto
      qed
    qed
  next
    case 2
    then obtain v r where pv: "parse_value n s = Some (v, r)"
      by (cases "parse_value n s") auto
    from Suc.IH(1) [OF pv] have lv: "length r < length s"
      and gv: "\<And>g. 2 * (length s - length r) \<le> Suc g \<Longrightarrow> parse_value g s = Some (v, r)"
      by auto
    from 2 pv obtain c r' where w: "skip_ws r = c # r'"
      by (cases "skip_ws r") auto
    have lr: "length r' < length r" using w by (rule skip_ws_Cons)
    show ?case
    proof (cases "c = CHR '']''")
      case True
      with 2 pv w have res: "vs = [v]" "rest = r'" by auto
      have "parse_elements g s = Some (vs, rest)" if "2 * (length s - length rest) \<le> g" for g
      proof -
        from that lv lr res obtain g' where g': "g = Suc g'" by (cases g) auto
        with that lv lr res have "2 * (length s - length r) \<le> Suc g'" by auto
        then have "parse_value g' s = Some (v, r)" by (rule gv)
        then show ?thesis using g' w True res by auto
      qed
      then show ?thesis using lv lr res by auto
    next
      case False
      with 2 pv w have comma: "c = CHR '',''"
        by (auto split: if_splits)
      with 2 pv w False obtain es where
        e: "parse_elements n (skip_ws r') = Some (es, rest)" and res: "vs = v # es"
        by auto
      from Suc.IH(2) [OF e] have l: "length rest < length (skip_ws r')"
        and ge: "\<And>g. 2 * (length (skip_ws r') - length rest) \<le> g \<Longrightarrow>
                  parse_elements g (skip_ws r') = Some (es, rest)"
        by auto
      have lw: "length (skip_ws r') \<le> length r'" by (rule length_skip_ws)
      have "parse_elements g s = Some (vs, rest)" if "2 * (length s - length rest) \<le> g" for g
      proof -
        from that lv lr l lw obtain g' where g': "g = Suc g'" by (cases g) auto
        with that lv lr l lw have "2 * (length s - length r) \<le> Suc g'"
          and "2 * (length (skip_ws r') - length rest) \<le> g'" by auto
        then have "parse_value g' s = Some (v, r)"
          and "parse_elements g' (skip_ws r') = Some (es, rest)"
          by (auto intro: gv ge)
        then show ?thesis using g' w False comma res by auto
      qed
      then show ?thesis using lv lr l lw by auto
    qed
  next
    case 3
    then obtain q r where s: "s = q # r" and q: "q = CHR 0x22"
      by (cases s) (auto split: if_splits)
    from 3 s q obtain k r1 where pc: "parse_chars r = Some (k, r1)"
      by (cases "parse_chars r") auto
    have l1: "length r1 < length r" using pc by (rule parse_chars_shorter)
    from 3 s q pc obtain c1 r2 where w1: "skip_ws r1 = c1 # r2"
      by (cases "skip_ws r1") auto
    have l2: "length r2 < length r1" using w1 by (rule skip_ws_Cons)
    from 3 s q pc w1 have colon: "c1 = CHR '':''"
      by (auto split: if_splits)
    from 3 s q pc w1 colon obtain v r3 where pv: "parse_value n (skip_ws r2) = Some (v, r3)"
      by (cases "parse_value n (skip_ws r2)") auto
    from Suc.IH(1) [OF pv] have lv: "length r3 < length (skip_ws r2)"
      and gv: "\<And>g. 2 * (length (skip_ws r2) - length r3) \<le> Suc g \<Longrightarrow>
                parse_value g (skip_ws r2) = Some (v, r3)"
      by auto
    have lw2: "length (skip_ws r2) \<le> length r2" by (rule length_skip_ws)
    from 3 s q pc w1 colon pv obtain c3 r4 where w3: "skip_ws r3 = c3 # r4"
      by (cases "skip_ws r3") auto
    have l4: "length r4 < length r3" using w3 by (rule skip_ws_Cons)
    show ?case
    proof (cases "c3 = CHR ''}''")
      case True
      with 3 s q pc w1 colon pv w3 have res: "ms = [(k, v)]" "rest = r4" by auto
      have "parse_members g s = Some (ms, rest)" if "2 * (length s - length rest) \<le> g" for g
      proof -
        from that s l1 l2 lv lw2 l4 res obtain g' where g': "g = Suc g'" by (cases g) auto
        with that s l1 l2 lv lw2 l4 res have "2 * (length (skip_ws r2) - length r3) \<le> Suc g'"
          by auto
        then have "parse_value g' (skip_ws r2) = Some (v, r3)" by (rule gv)
        then show ?thesis using g' s q pc w1 colon w3 True res by auto
      qed
      then show ?thesis using s l1 l2 lv lw2 l4 res by auto
    next
      case False
      with 3 s q pc w1 colon pv w3 have comma: "c3 = CHR '',''"
        by (auto split: if_splits)
      with 3 s q pc w1 colon pv w3 False obtain es where
        e: "parse_members n (skip_ws r4) = Some (es, rest)" and res: "ms = (k, v) # es"
        by auto
      from Suc.IH(3) [OF e] have l: "length rest < length (skip_ws r4)"
        and ge: "\<And>g. 2 * (length (skip_ws r4) - length rest) \<le> g \<Longrightarrow>
                  parse_members g (skip_ws r4) = Some (es, rest)"
        by auto
      have lw4: "length (skip_ws r4) \<le> length r4" by (rule length_skip_ws)
      have "parse_members g s = Some (ms, rest)" if "2 * (length s - length rest) \<le> g" for g
      proof -
        from that s l1 l2 lv lw2 l4 l lw4 obtain g' where g': "g = Suc g'" by (cases g) auto
        with that s l1 l2 lv lw2 l4 l lw4 have "2 * (length (skip_ws r2) - length r3) \<le> Suc g'"
          and "2 * (length (skip_ws r4) - length rest) \<le> g'" by auto
        then have "parse_value g' (skip_ws r2) = Some (v, r3)"
          and "parse_members g' (skip_ws r4) = Some (es, rest)"
          by (auto intro: gv ge)
        then show ?thesis using g' s q pc w1 colon w3 False comma res by auto
      qed
      then show ?thesis using s l1 l2 lv lw2 l4 l lw4 by auto
    qed
  }
qed

lemma JSON_parse_bound_enough:
  assumes "parse_value f (skip_ws s) = Some (v, rest)" and "skip_ws rest = []"
  shows "JSON_parse s = Some v"
proof -
  have "2 * (length (skip_ws s) - length rest) \<le> Suc (2 * length s + 2)"
    using length_skip_ws [of s] by simp
  with bound_enough(1) [OF assms(1)]
  have "parse_value (2 * length s + 2) (skip_ws s) = Some (v, rest)" by blast
  with assms(2) show ?thesis by (simp add: JSON_parse_def)
qed

section \<open>Properties of the decoder\<close>


lemma JSON_parse_comma_list: "JSON_parse ''a,b'' = None"
  by (simp add: JSON_parse_def skip_ws_def is_ws_def eval_nat_numeral parse_scalar_def
      parse_number_def scan_int_def is_digit_def)

text \<open>
  C9. In the decoder, the branch that splits a comma-separated \<^verbatim>\<open>tags\<close> value is
  never taken: whatever \<^verbatim>\<open>callbackData\<close> holds and whatever the key is, a key equal to
  \<^verbatim>\<open>tags\<close> is consumed by the JSON branch before the guard of the comma-separated
  branch is reached. So \<^verbatim>\<open>tags=a,b\<close> decodes to the string \<^verbatim>\<open>a,b\<close>, which the
  comma-separated branch would have split.
\<close>

theorem comma_separated_branch_unreachable:
  "decoded_value d key value = branch_value (decode_branch d key) value
   \<and> decode_branch d key \<noteq> CommaSeparated
   \<and> decode_branch d ''tags'' = JsonArray
   \<and> decoded_value d ''tags'' ''a,b'' = JString ''a,b''
   \<and> branch_value CommaSeparated ''a,b'' = JArray [JString ''a'', JString ''b'']"
  by (simp add: decode_branch_def decoded_value_def JSON_parse_comma_list)



text \<open>
  C4. The mapping \<^verbatim>\<open>{term: "foo", tag: "bar"}\<close> (its properties in the order they were
  set) and the action \<^verbatim>\<open>search\<close> build exactly
  \<^verbatim>\<open>bear://x-callback-url/search?term=foo&tag=bar\<close>, and the callback decoder, given that
  query string, recovers the mapping.
\<close>

theorem search_round_trip:
  "obj_set (obj_set [] ''term'' (Str ''foo'')) ''tag'' (Str ''bar'')
     = [(''term'', Str ''foo''), (''tag'', Str ''bar'')]
   \<and> buildBearURL ''search'' [(''term'', Str ''foo''), (''tag'', Str ''bar'')]
     = ''bear://x-callback-url/search?term=foo&tag=bar''
   \<and> queryString [(''term'', Str ''foo''), (''tag'', Str ''bar'')] = ''term=foo&tag=bar''
   \<and> parse_urlencoded ''term=foo&tag=bar'' = [(''term'', ''foo''), (''tag'', ''bar'')]
   \<and> decode_callback (parse_urlencoded ''term=foo&tag=bar'')
     = [''term'' \<mapsto> JString ''foo'', ''tag'' \<mapsto> JString ''bar'']
   \<and> decode_callback (searchParams ''/callback?term=foo&tag=bar'')
     = [''term'' \<mapsto> JString ''foo'', ''tag'' \<mapsto> JString ''bar'']"
proof -
  have q: "queryString [(''term'', Str ''foo''), (''tag'', Str ''bar'')] = ''term=foo&tag=bar''"
    by (simp add: queryString_def encodeURIComponent_def encode_byte_def uriUnescaped_def)
  have p: "parse_urlencoded ''term=foo&tag=bar'' = [(''term'', ''foo''), (''tag'', ''bar'')]"
    by (simp add: parse_urlencoded_def query_pieces_def parse_pair_def piece_name_def
        piece_value_def plus_to_space_def)
  have d: "decode_callback [(''term'', ''foo''), (''tag'', ''bar'')]
      = [''term'' \<mapsto> JString ''foo'', ''tag'' \<mapsto> JString ''bar'']"
    by (simp add: decode_callback_def decode_entry_def decoded_value_def cb_assign_def)
  have s: "url_query ''/callback?term=foo&tag=bar'' = ''term=foo&tag=bar''"
    by (simp add: url_query_def)
  show ?thesis
    by (simp add: q p d s searchParams_def buildBearURL_def baseURL_def)
qed

section \<open>Properties of the tool handlers\<close>

subsection \<open>Objects and handler bodies\<close>

lemma map_of_obj_set: "map_of (obj_set ps k v) = (map_of ps)(k \<mapsto> v)"
  by (induction ps k v rule: obj_set.induct) auto

lemma keys_obj_set: "fst ` set (obj_set ps k v) = insert k (fst ` set ps)"
  by (induction ps k v rule: obj_set.induct) auto

lemma distinct_obj_set: "distinct (map fst ps) \<Longrightarrow> distinct (map fst (obj_set ps k v))"
  by (induction ps k v rule: obj_set.induct) (auto simp: keys_obj_set)

lemma distinct_exec_stmt: "distinct (map fst ps) \<Longrightarrow> distinct (map fst (exec_stmt args ps s))"
  by (cases s) (simp_all add: distinct_obj_set)

lemma distinct_foldl_exec_stmt:
  "distinct (map fst ps) \<Longrightarrow> distinct (map fst (foldl (exec_stmt args) ps ss))"
  by (induction ss arbitrary: ps) (simp_all add: distinct_exec_stmt)

lemma distinct_handler_init: "distinct (map fst (handler_init t args))"
  by (cases t) simp_all

lemma distinct_handler_params: "distinct (map fst (handler_params t args))"
  by (simp add: handler_params_def distinct_foldl_exec_stmt distinct_handler_init)

lemma flag_after_stmts:
  "Copy f \<notin> set ss \<Longrightarrow>
   map_of (foldl (exec_stmt args) ps ss) f =
     (if Flag f \<in> set ss \<and> truthy (arg_of args f) then Some (Str ''yes'') else map_of ps f)"
proof (induction ss arbitrary: ps)
  case Nil
  then show ?case by simp
next
  case (Cons s ss)
  then show ?case by (cases s) (auto simp: map_of_obj_set)
qed

lemma flags_of_handlers:
  assumes "f \<in> set (boolean_flags t)"
  shows "Flag f \<in> set (handler_stmts t)" and "Copy f \<notin> set (handler_stmts t)"
    and "map_of (handler_init t args) f = None"
  using assms by (cases t; auto)+

lemma flag_in_params:
  assumes "f \<in> set (boolean_flags t)"
  shows "map_of (handler_params t args) f =
           (if truthy (arg_of args f) then Some (Str ''yes'') else None)"
  using flags_of_handlers [OF assms]
  by (simp add: handler_params_def flag_after_stmts)


lemma filter_queryParts_lookup:
  assumes "distinct (map fst params)"
  shows "filter (\<lambda>p. piece_name p = encodeURIComponent k) (queryParts params) =
     (case map_of params k of
        None \<Rightarrow> []
      | Some v \<Rightarrow> if v = Undefined \<or> v = Null then []
                  else [encodeURIComponent k @ ''='' @ encodeURIComponent (String v)])"
proof (cases "map_of params k")
  case None
  then have "k \<notin> fst ` set params" by (simp add: map_of_eq_None_iff)
  with None show ?thesis by (simp add: filter_queryParts_other)
next
  case (Some v)
  then have "(k, v) \<in> set params" by (rule map_of_SomeD)
  with Some assms show ?thesis by (simp add: filter_queryParts_key del: append.simps)
qed

lemma flag_names_plain:
  assumes "f \<in> set (boolean_flags t)"
  shows "encodeURIComponent f = f" and "f \<noteq> ''x-success''"
  using assms
  by (cases t; auto simp: encodeURIComponent_def encode_byte_def uriUnescaped_def)+

lemma yes_plain: "encodeURIComponent ''yes'' = ''yes''"
  by (simp add: encodeURIComponent_def encode_byte_def uriUnescaped_def)

lemma action_plain: "CHR ''?'' \<notin> set (handler_action t)" "CHR ''#'' \<notin> set (handler_action t)"
  by (cases t; simp)+

lemma url_query_tool_url:
  "url_query (tool_url t args port) =
     queryString (if with_callback t
                  then obj_set (handler_params t args) ''x-success'' (Str (callbackUrl port))
                  else handler_params t args)"
  by (simp add: tool_url_def bearUrl_def url_query_buildBearURL action_plain)

lemma flag_in_url:
  assumes "f \<in> set (boolean_flags t)"
  shows "filter (\<lambda>piece. piece_name piece = f) (query_pieces (url_query (tool_url t args port)))
           = (if truthy (arg_of args f) then [f @ ''=yes''] else [])"
proof -
  let ?ps = "if with_callback t
             then obj_set (handler_params t args) ''x-success'' (Str (callbackUrl port))
             else handler_params t args"
  have d: "distinct (map fst ?ps)"
    by (simp add: distinct_obj_set distinct_handler_params)
  have m: "map_of ?ps f = (if truthy (arg_of args f) then Some (Str ''yes'') else None)"
    using flag_names_plain(2) [OF assms] by (simp add: map_of_obj_set flag_in_params [OF assms])
  have "filter (\<lambda>p. piece_name p = encodeURIComponent f) (queryParts ?ps)
      = (if truthy (arg_of args f) then [f @ ''=yes''] else [])"
    unfolding filter_queryParts_lookup [OF d] m
    by (simp add: flag_names_plain(1) [OF assms] yes_plain)
  then show ?thesis
    by (simp only: url_query_tool_url query_pieces_queryString flag_names_plain(1) [OF assms])
qed

lemma copy_after_stmts:
  "Flag k \<notin> set ss \<Longrightarrow> Copy k \<in> set ss \<Longrightarrow> truthy (arg_of args k) \<Longrightarrow>
   map_of (foldl (exec_stmt args) ps ss) k = Some (arg_of args k)"
proof (induction ss arbitrary: ps rule: rev_induct)
  case Nil
  then show ?case by simp
next
  case (snoc s ss)
  show ?case
  proof (cases "s = Copy k")
    case True
    with snoc.prems show ?thesis by (simp add: map_of_obj_set)
  next
    case False
    with snoc show ?thesis by (cases s) (auto simp: map_of_obj_set)
  qed
qed

subsection \<open>The claims about the handlers\<close>

text \<open>
  C3. For every tool handler and every boolean flag of its schema: when the argument is
  \<^verbatim>\<open>true\<close> the parameter mapping has the flag with the value \<^verbatim>\<open>yes\<close>, and the URL has
  the piece \<^verbatim>\<open>flag=yes\<close>; when it is \<^verbatim>\<open>false\<close> or absent the mapping has no such key and
  the URL no piece under it; the flag is never given the value \<^verbatim>\<open>no\<close>.
\<close>

theorem boolean_flag_yes_or_omitted:
  assumes "f \<in> set (boolean_flags t)"
  shows "(arg_of args f = Boolean True \<longrightarrow>
            map_of (handler_params t args) f = Some (Str ''yes'')
            \<and> filter (\<lambda>piece. piece_name piece = f) (query_pieces (url_query (tool_url t args port)))
                = [f @ ''=yes''])
       \<and> (arg_of args f = Boolean False \<or> args f = None \<longrightarrow>
            f \<notin> fst ` set (handler_params t args)
            \<and> filter (\<lambda>piece. piece_name piece = f) (query_pieces (url_query (tool_url t args port)))
                = [])
       \<and> map_of (handler_params t args) f \<noteq> Some (Str ''no'')
       \<and> f @ ''=no'' \<notin> set (query_pieces (url_query (tool_url t args port)))"
proof -
  let ?pieces = "query_pieces (url_query (tool_url t args port))"
  have m: "map_of (handler_params t args) f =
      (if truthy (arg_of args f) then Some (Str ''yes'') else None)"
    by (rule flag_in_params [OF assms])
  have u: "filter (\<lambda>piece. piece_name piece = f) ?pieces =
      (if truthy (arg_of args f) then [f @ ''=yes''] else [])"
    by (rule flag_in_url [OF assms])
  have absent: "arg_of args f = Undefined" if "args f = None"
    using that by (simp add: arg_of_def)
  have "piece_name (f @ ''=no'') = f"
    using piece_name_part [of f "''no''"] by (simp add: flag_names_plain(1) [OF assms])
  then have "f @ ''=no'' \<in> set ?pieces \<Longrightarrow>
      f @ ''=no'' \<in> set (filter (\<lambda>piece. piece_name piece = f) ?pieces)"
    by simp
  then have no: "f @ ''=no'' \<notin> set ?pieces"
    unfolding u by auto
  show ?thesis
    using absent no by (auto simp: m u map_of_eq_None_iff [symmetric] simp del: map_of_eq_None_iff)
qed

theorem boolean_flag_yes_or_omitted_witness:
  "''pin'' \<in> set (boolean_flags OpenNote)
   \<and> ''edit'' \<in> set (boolean_flags OpenNote)
   \<and> map_of (handler_params OpenNote [''title'' \<mapsto> Str ''a'', ''pin'' \<mapsto> Boolean True, ''edit'' \<mapsto> Boolean False]) ''pin''
       = Some (Str ''yes'')
   \<and> ''edit'' \<notin> fst ` set (handler_params OpenNote [''title'' \<mapsto> Str ''a'', ''pin'' \<mapsto> Boolean True, ''edit'' \<mapsto> Boolean False])
   \<and> ''pin=no'' \<notin> set (query_pieces (url_query
        (tool_url OpenNote [''title'' \<mapsto> Str ''a'', ''pin'' \<mapsto> Boolean True, ''edit'' \<mapsto> Boolean False] 49152)))"
proof -
  let ?args = "[''title'' \<mapsto> Str ''a'', ''pin'' \<mapsto> Boolean True, ''edit'' \<mapsto> Boolean False]"
  have p: "''pin'' \<in> set (boolean_flags OpenNote)" and e: "''edit'' \<in> set (boolean_flags OpenNote)"
    by simp_all
  have a: "arg_of ?args ''pin'' = Boolean True" "arg_of ?args ''edit'' = Boolean False"
    by (simp_all add: arg_of_def)
  show ?thesis
    using boolean_flag_yes_or_omitted [OF p, of ?args 49152]
      boolean_flag_yes_or_omitted [OF e, of ?args 49152] a p e
    by simp
qed

text \<open>
  C7. A call of \<^verbatim>\<open>bear_get_tags\<close> without a token starts neither of the two ways of
  opening a URL: \<^verbatim>\<open>getTags\<close> throws the invalid-parameters error at once. The request
  handler catches it and throws an internal error in its place, so the call fails with
  the code \<open>InternalError\<close>; so does a call without arguments.
\<close>

theorem getTags_without_token:
  "handler GetTags Map.empty = Inl (McpError InvalidParams (Text ''Token is required for getTags''))
   \<and> call_handler this ''bear_get_tags'' (Some Map.empty)
       = Inl (McpError InvalidParams (Text ''Token is required for getTags''))
   \<and> callTool this ''bear_get_tags'' (Some Map.empty)
       = Inl (McpError InternalError (MessageOf ''Tool execution failed: ''
                (McpError InvalidParams (Text ''Token is required for getTags''))))
   \<and> callTool this ''bear_get_tags'' (Some [''token'' \<mapsto> Str []])
       = Inl (McpError InternalError (MessageOf ''Tool execution failed: ''
                (McpError InvalidParams (Text ''Token is required for getTags''))))
   \<and> callTool this ''bear_get_tags'' None
       = Inl (McpError InternalError (MessageOf ''Tool execution failed: '' TypeError))
   \<and> callTool this ''bear_get_tags'' (Some [''token'' \<mapsto> Str ''T''])
       = Inr (ExecuteWithCallback ''tags'' [(''token'', Str ''T'')])"
  by (simp add: callTool_def call_handler_def tool_named_def handler_def arg_of_def
      handler_params_def)

lemma getTags_needs_token:
  "\<not> truthy (arg_of args ''token'') \<Longrightarrow>
   callTool this ''bear_get_tags'' (Some args)
     = Inl (McpError InternalError (MessageOf ''Tool execution failed: ''
              (McpError InvalidParams (Text ''Token is required for getTags''))))"
  by (simp add: callTool_def call_handler_def tool_named_def handler_def)

lemma callTool_error_code:
  "callTool this name args = Inl error \<Longrightarrow> \<exists>m. error = McpError InternalError m"
  by (auto simp: callTool_def split: sum.splits)

text \<open>
  C8. A token given as a tool argument is copied to the parameters as it is. The
  environment is not read: the constructor leaves the field \<^verbatim>\<open>token\<close> unset, no handler
  reads it, and with \<^verbatim>\<open>BEAR_TOKEN\<close> set a call without a token argument opens a URL
  without a token, or fails for want of one.
\<close>

theorem environment_token_not_used:
  "token (new_BearMCPServer env) = None
   \<and> callTool (new_BearMCPServer env) name args = callTool (new_BearMCPServer Map.empty) name args
   \<and> callTool (new_BearMCPServer [''BEAR_TOKEN'' \<mapsto> ''T'']) ''bear_search'' (Some [''term'' \<mapsto> Str ''x''])
       = Inr (ExecuteWithCallback ''search'' [(''term'', Str ''x'')])
   \<and> tool_url Search [''term'' \<mapsto> Str ''x''] 49152
       = ''bear://x-callback-url/search?term=x&x-success=http%3A%2F%2Flocalhost%3A49152%2Fcallback''
   \<and> callTool (new_BearMCPServer [''BEAR_TOKEN'' \<mapsto> ''T'']) ''bear_get_tags'' (Some Map.empty)
       = Inl (McpError InternalError (MessageOf ''Tool execution failed: ''
                (McpError InvalidParams (Text ''Token is required for getTags''))))
   \<and> callTool (new_BearMCPServer Map.empty) ''bear_search'' (Some [''term'' \<mapsto> Str ''x'', ''token'' \<mapsto> Str ''T''])
       = Inr (ExecuteWithCallback ''search'' [(''term'', Str ''x''), (''token'', Str ''T'')])"
proof -
  have d: "decimal 49152 = ''49152''"
    by (simp add: decimal.simps [of 49152] decimal.simps [of 4915] decimal.simps [of 491]
        decimal.simps [of 49] decimal.simps [of 4])
  have u: "tool_url Search [''term'' \<mapsto> Str ''x''] 49152
      = ''bear://x-callback-url/search?term=x&x-success=http%3A%2F%2Flocalhost%3A49152%2Fcallback''"
    by (simp add: tool_url_def bearUrl_def callbackUrl_def d handler_params_def arg_of_def
        buildBearURL_def queryString_def baseURL_def encodeURIComponent_def encode_byte_def
        uriUnescaped_def hex_digit_def)
  show ?thesis
    by (simp add: u new_BearMCPServer_def callTool_def call_handler_def tool_named_def
        handler_def arg_of_def handler_params_def)
qed

text \<open>
  The per-call half of C8 in general: every handler that takes a token copies a
  non-empty one into its parameters unchanged.
\<close>

lemma token_argument_passed:
  assumes "t \<in> {Search, GetTags, OpenTag, GetUntagged, GetTodo, GetToday}"
    and "tok \<noteq> []"
  shows "map_of (handler_params t (args(''token'' \<mapsto> Str tok))) ''token'' = Some (Str tok)"
proof (cases "t = GetTags")
  case True
  then show ?thesis by (simp add: handler_params_def arg_of_def)
next
  case False
  with assms(1) have "Flag ''token'' \<notin> set (handler_stmts t)" "Copy ''token'' \<in> set (handler_stmts t)"
    by auto
  moreover have "truthy (arg_of (args(''token'' \<mapsto> Str tok)) ''token'')"
    using assms(2) by (simp add: arg_of_def)
  ultimately have "map_of (handler_params t (args(''token'' \<mapsto> Str tok))) ''token''
      = Some (arg_of (args(''token'' \<mapsto> Str tok)) ''token'')"
    unfolding handler_params_def by (rule copy_after_stmts)
  then show ?thesis by (simp add: arg_of_def)
qed

section \<open>Properties of the callback receiver\<close>

lemma settle_fields [simp]:
  "listener (settle r s) = listener s" "timer (settle r s) = timer s"
  "running (settle r s) = running s" "opened (settle r s) = opened s"
  by (simp_all add: settle_def split: option.split)

lemma promise_settle:
  "promise (settle r s) = (case promise s of None \<Rightarrow> Some r | Some x \<Rightarrow> Some x)"
  by (simp add: settle_def split: option.split)

lemma closed_step: "listener s = Closed \<Longrightarrow> listener (step action params s e) = Closed"
  by (cases e) (auto split: option.splits sum.splits)

lemma closed_foldl: "listener s = Closed \<Longrightarrow> listener (foldl (step action params) s es) = Closed"
  by (induction es arbitrary: s) (simp_all add: closed_step)







lemma waiting_step: "waiting s \<Longrightarrow> \<not> is_request e \<Longrightarrow> waiting (step action params s e)"
  by (cases e)
    (auto simp: waiting_def promise_settle split: option.splits sum.splits)

lemma waiting_foldl:
  "waiting s \<Longrightarrow> list_all (\<lambda>e. \<not> is_request e) es \<Longrightarrow> waiting (foldl (step action params) s es)"
  by (induction es arbitrary: s) (simp_all add: waiting_step)

lemma undisturbed_step:
  "undisturbed s \<Longrightarrow> \<not> is_request e \<Longrightarrow> \<not> dispatch_failure e \<Longrightarrow> listener s \<noteq> Starting \<Longrightarrow>
   undisturbed (step action params s e)"
  by (cases e)
    (auto simp: undisturbed_def promise_settle split: option.splits sum.splits)

lemma not_starting_step: "listener s \<noteq> Starting \<Longrightarrow> listener (step action params s e) \<noteq> Starting"
  by (cases e) (auto split: option.splits sum.splits)

lemma undisturbed_foldl:
  "undisturbed s \<Longrightarrow> listener s \<noteq> Starting \<Longrightarrow> list_all (\<lambda>e. \<not> is_request e) es \<Longrightarrow>
   list_all (\<lambda>e. \<not> dispatch_failure e) es \<Longrightarrow> undisturbed (foldl (step action params) s es)"
  by (induction es arbitrary: s) (simp_all add: undisturbed_step not_starting_step)

lemma timeout_after_waiting:
  assumes "waiting s"
  shows "listener (step action params s Timeout) = Closed"
    and "\<exists>error. promise (step action params s Timeout) = Some (Inl error)"
    and "undisturbed s \<Longrightarrow> promise (step action params s Timeout) = Some (Inl (Error (Text ''Callback timeout'')))"
  using assms
  by (auto simp: waiting_def undisturbed_def promise_settle split: option.splits sum.splits)

lemma after_listening:
  "step action params executeWithCallback (Listening (Some port)) =
     \<lparr>listener = Open, promise = None, timer = Some 10000,
      opened = [bearUrl action params port], running = True\<rparr>"
  by (simp add: executeWithCallback_def)


text \<open>
  C5, as amended. Once the listener has started and the timer is set (to 10000 ms): if
  no request arrives before the timer fires, then after it has fired the listener is
  closed, and stays closed, and the promise is rejected. The rejection is the timeout
  error when the dispatch of the URL has not failed in the meantime; a failed dispatch
  has rejected the promise with its own error before.
\<close>

theorem timeout_closes_and_rejects:
  assumes "list_all (\<lambda>e. \<not> is_request e) events"
  shows "timer (run action params [Listening (Some port)]) = Some 10000
       \<and> listener (run action params (Listening (Some port) # events @ [Timeout])) = Closed
       \<and> listener (run action params (Listening (Some port) # events @ [Timeout] @ later)) = Closed
       \<and> (\<exists>error. promise (run action params (Listening (Some port) # events @ [Timeout])) = Some (Inl error))
       \<and> (list_all (\<lambda>e. \<not> dispatch_failure e) events \<longrightarrow>
            promise (run action params (Listening (Some port) # events @ [Timeout]))
              = Some (Inl (Error (Text ''Callback timeout''))))"
proof -
  let ?s1 = "step action params executeWithCallback (Listening (Some port))"
  let ?s2 = "foldl (step action params) ?s1 events"
  have r: "run action params (Listening (Some port) # events @ [Timeout]) = step action params ?s2 Timeout"
    by (simp add: run_def)
  have r': "run action params (Listening (Some port) # events @ [Timeout] @ later)
      = foldl (step action params) (step action params ?s2 Timeout) later"
    by (simp add: run_def)
  have w1: "waiting ?s1" and u1: "undisturbed ?s1" and n1: "listener ?s1 \<noteq> Starting"
    by (simp_all add: executeWithCallback_def waiting_def undisturbed_def)
  have w2: "waiting ?s2" using w1 assms by (rule waiting_foldl)
  have u2: "undisturbed ?s2" if "list_all (\<lambda>e. \<not> dispatch_failure e) events"
    using u1 n1 assms that by (rule undisturbed_foldl)
  have c: "listener (step action params ?s2 Timeout) = Closed"
    by (rule timeout_after_waiting(1) [OF w2])
  have c': "listener (foldl (step action params) (step action params ?s2 Timeout) later) = Closed"
    using c by (rule closed_foldl)
  have t: "timer (run action params [Listening (Some port)]) = Some 10000"
    by (simp add: run_def executeWithCallback_def)
  show ?thesis
    unfolding r r' using timeout_after_waiting(2,3) [OF w2, of action params] u2 c c' t
    by blast
qed


theorem timeout_closes_and_rejects_witness:
  "list_all (\<lambda>e. \<not> is_request e) [Finished (Exited [] [])]
   \<and> list_all (\<lambda>e. \<not> dispatch_failure e) [Finished (Exited [] [])]
   \<and> listener (run ''tags'' [] [Listening (Some 49152), Finished (Exited [] []), Timeout]) = Closed
   \<and> promise (run ''tags'' [] [Listening (Some 49152), Finished (Exited [] []), Timeout])
       = Some (Inl (Error (Text ''Callback timeout'')))"
proof -
  have r: "list_all (\<lambda>e. \<not> is_request e) [Finished (Exited [] [])]"
    and f: "list_all (\<lambda>e. \<not> dispatch_failure e) [Finished (Exited [] [])]"
    by (simp_all add: executeURL_def)
  show ?thesis
    using timeout_closes_and_rejects [OF r, of "''tags''" "[]" 49152 "[]"] r f by simp
qed

text \<open>
  C5 as the specification states it fails: the process that opens the URL fails, no
  request arrives, the timer fires, and the promise is rejected with the error of the
  dispatch, not with the timeout error.
\<close>

theorem timeout_error_counterexample:
  "\<not> is_request (Finished (Failed ''boom''))
   \<and> listener (run ''tags'' [] [Listening (Some 49152), Finished (Failed ''boom''), Timeout]) = Closed
   \<and> promise (run ''tags'' [] [Listening (Some 49152), Finished (Failed ''boom''), Timeout])
       = Some (Inl (McpError InternalError
                 (MessageOf ''Failed to execute Bear URL: '' (Error (Text ''boom'')))))
   \<and> promise (run ''tags'' [] [Listening (Some 49152), Finished (Failed ''boom''), Timeout])
       \<noteq> Some (Inl (Error (Text ''Callback timeout'')))"
  by (simp add: run_def executeWithCallback_def executeURL_def settle_def)






end
